theory Spec2Isabelle
  imports Main "HOL-Library.Signed_Division" "HOL-Library.AList" "HOL-Library.Sublist"
begin

section \<open>Go integers\<close>

text \<open>
  The downloader computes with Go's \<^verbatim>\<open>int\<close>, a 64-bit two's complement integer on
  the platforms the program targets. The model keeps mathematical integers and writes the
  wrap-around out wherever the source multiplies, adds or subtracts byte offsets. Go's
  \<^verbatim>\<open>/\<close> and \<^verbatim>\<open>%\<close> truncate towards zero: they are \<open>sdiv\<close> and \<open>smod\<close>.
\<close>

definition wrap64 :: "int \<Rightarrow> int" where
  "wrap64 x = (x + 2 ^ 63) mod 2 ^ 64 - 2 ^ 63"

definition isInt64 :: "int \<Rightarrow> bool" where
  "isInt64 x = (- (2 ^ 63) \<le> x \<and> x < 2 ^ 63)"

definition add64 :: "int \<Rightarrow> int \<Rightarrow> int" where
  "add64 a b = wrap64 (a + b)"

definition sub64 :: "int \<Rightarrow> int \<Rightarrow> int" where
  "sub64 a b = wrap64 (a - b)"

definition mul64 :: "int \<Rightarrow> int \<Rightarrow> int" where
  "mul64 a b = wrap64 (a * b)"

section \<open>Chunk planning (downloadLargeFile, lines 130-152)\<close>

text \<open>
  The three locals the planning step sets before the loop. A plan is absent when the
  division panics (integer divide by zero), which ends the whole process.
\<close>

record plan =
  numConcParts :: int
  totalBytesPerGoroutine :: int
  lastByteLeft :: int

definition planParts :: "int \<Rightarrow> int \<Rightarrow> plan option" where
  "planParts contentLength NumConcParts =
     (if contentLength \<le> 1024 * 1024 * 10
      then Some \<lparr>numConcParts = 1, totalBytesPerGoroutine = 0, lastByteLeft = contentLength\<rparr>
      else if NumConcParts = 0 then None
      else Some \<lparr>numConcParts = NumConcParts,
                  totalBytesPerGoroutine = contentLength sdiv NumConcParts,
                  lastByteLeft = contentLength smod NumConcParts\<rparr>)"

text \<open>The bounds \<^verbatim>\<open>min\<close> and \<^verbatim>\<open>max\<close> of iteration \<open>i\<close> (lines 147-152).\<close>

definition chunkBounds :: "plan \<Rightarrow> int \<Rightarrow> int \<times> int" where
  "chunkBounds p i =
     (let min = mul64 (totalBytesPerGoroutine p) i;
          max = sub64 (mul64 (totalBytesPerGoroutine p) (add64 i 1)) 1
      in if i = sub64 (numConcParts p) 1 \<and> lastByteLeft p > 0
         then (min, add64 max (lastByteLeft p))
         else (min, max))"

text \<open>
  A planned range: the chunk's \<^verbatim>\<open>index\<close> and its inclusive bounds.
\<close>

record byteRange =
  r_index :: int
  r_min :: int
  r_max :: int

text \<open>
  The loop of lines 146-167, reduced to the ranges it requests (every temporary file is
  created and every permit is granted). The counters \<open>i\<close> and \<open>index\<close> stay below
  \<open>numConcParts\<close>, itself a Go \<^verbatim>\<open>int\<close>, so their increments cannot wrap.
\<close>

function rangeLoop :: "plan \<Rightarrow> int \<Rightarrow> int \<Rightarrow> byteRange list" where
  "rangeLoop p i index =
     (if i < numConcParts p
      then \<lparr>r_index = index, r_min = fst (chunkBounds p i), r_max = snd (chunkBounds p i)\<rparr>
             # rangeLoop p (i + 1) (index + 1)
      else [])"
  by pat_completeness auto
termination
  by (relation "measure (\<lambda>(p, i, index). nat (numConcParts p - i))") auto

declare rangeLoop.simps [simp del]

definition plannedRanges :: "int \<Rightarrow> int \<Rightarrow> byteRange list option" where
  "plannedRanges contentLength NumConcParts =
     (case planParts contentLength NumConcParts of
        None \<Rightarrow> None
      | Some p \<Rightarrow> Some (rangeLoop p 0 0))"

subsection \<open>What a partition of the file is\<close>

fun contiguous :: "byteRange list \<Rightarrow> bool" where
  "contiguous (a # b # rs) = (r_min b = r_max a + 1 \<and> contiguous (b # rs))"
| "contiguous rs = True"

fun nonOverlapping :: "byteRange list \<Rightarrow> bool" where
  "nonOverlapping (a # b # rs) = (r_max a < r_min b \<and> nonOverlapping (b # rs))"
| "nonOverlapping rs = True"

fun strictlyIncreasing :: "byteRange list \<Rightarrow> bool" where
  "strictlyIncreasing (a # b # rs) =
     (r_min a < r_min b \<and> r_max a < r_max b \<and> strictlyIncreasing (b # rs))"
| "strictlyIncreasing rs = True"

definition bytesOf :: "byteRange \<Rightarrow> int set" where
  "bytesOf r = {r_min r .. r_max r}"

text \<open>The range the spec gives for index \<open>i\<close> of \<open>P\<close> parts of a file of \<open>L\<close> bytes.\<close>

definition specRange :: "int \<Rightarrow> int \<Rightarrow> int \<Rightarrow> byteRange" where
  "specRange L P i =
     \<lparr>r_index = i, r_min = i * (L div P),
      r_max = (i + 1) * (L div P) - 1 + (if i = P - 1 then L mod P else 0)\<rparr>"

section \<open>Strings and numbers (strconv, strings)\<close>

text \<open>
  \<^verbatim>\<open>strconv.Itoa\<close>: the decimal digits of an \<^verbatim>\<open>int\<close>, with a leading minus sign
  for a negative one.
\<close>

function digitsOf :: "int \<Rightarrow> string" where
  "digitsOf n =
     (if n < 10 then [''0123456789'' ! nat n]
      else digitsOf (n div 10) @ [''0123456789'' ! nat (n mod 10)])"
  by pat_completeness auto
termination
  by (relation "measure nat") auto

declare digitsOf.simps [simp del]

definition Itoa :: "int \<Rightarrow> string" where
  "Itoa n = (if n < 0 then CHR ''-'' # digitsOf (- n) else digitsOf n)"

text \<open>
  \<^verbatim>\<open>strconv.Atoi\<close>: an optional sign, then one or more decimal digits, and a value
  that fits an \<^verbatim>\<open>int\<close>; everything else is an error.
\<close>

definition digitVal :: "char \<Rightarrow> int option" where
  "digitVal c = map_of (zip ''0123456789'' [0, 1, 2, 3, 4, 5, 6, 7, 8, 9]) c"

fun digitsVal :: "int \<Rightarrow> string \<Rightarrow> int option" where
  "digitsVal acc [] = Some acc"
| "digitsVal acc (c # cs) =
     (case digitVal c of None \<Rightarrow> None | Some d \<Rightarrow> digitsVal (acc * 10 + d) cs)"

definition Atoi :: "string \<Rightarrow> int option" where
  "Atoi s =
     (let neg = (s \<noteq> [] \<and> hd s = CHR ''-'');
          ds = (if s \<noteq> [] \<and> (hd s = CHR ''-'' \<or> hd s = CHR ''+'') then tl s else s)
      in if ds = [] then None
         else (case digitsVal 0 ds of
                 None \<Rightarrow> None
               | Some v \<Rightarrow>
                   let n = (if neg then - v else v)
                   in if isInt64 n then Some n else None))"

text \<open>
  The last element of \<^verbatim>\<open>strings.Split(fileUri, "/")\<close> (line 82-83): the text after
  the last slash, the whole string when there is none.
\<close>

definition lastSegment :: "string \<Rightarrow> string" where
  "lastSegment s = rev (takeWhile (\<lambda>c. c \<noteq> CHR ''/'') (rev s))"

section \<open>Errors\<close>

text \<open>
  One constructor per place where the source makes an error value. Lines 120 and 178
  wrap an error with \<^verbatim>\<open>%w\<close> and no text of their own; the model stores the error
  they wrap.
\<close>

datatype error =
    ErrHeadRequest              \<comment> \<open>line 254: the HEAD request failed\<close>
  | ErrHeadStatus int           \<comment> \<open>line 258: HEAD status other than 200\<close>
  | ErrContentLength            \<comment> \<open>line 268: Content-Length is not an integer\<close>
  | ErrCheckingSize             \<comment> \<open>line 86\<close>
  | ErrProcessing               \<comment> \<open>line 91\<close>
  | ErrFileExists string        \<comment> \<open>line 101\<close>
  | ErrCreatingFile string      \<comment> \<open>line 106\<close>
  | ErrTempFile                 \<comment> \<open>line 156\<close>
  | ErrDownloadingRange error   \<comment> \<open>line 170: wraps the value of d.err\<close>
  | ErrNewRequest               \<comment> \<open>line 212\<close>
  | ErrTransport                \<comment> \<open>line 226\<close>
  | ErrNot20X int               \<comment> \<open>line 237\<close>
  | ErrCopyResponse             \<comment> \<open>line 243\<close>
  | ErrCombineCopy              \<comment> \<open>line 193: io.Copy failed while combining\<close>

section \<open>The outside world: HTTP server, file system\<close>

type_synonym bytes = string

datatype headResult =
    HeadFailed                  \<comment> \<open>http.Head returned an error\<close>
  | HeadResponse int string     \<comment> \<open>status code; Content-Length header, empty when absent\<close>

datatype getResult =
    GetFailed                           \<comment> \<open>client.Do returned an error\<close>
  | GetResponse int bytes "nat option"  \<comment> \<open>status code; body; where the body stream breaks\<close>

text \<open>
  What the operating system and the network answer. Every answer may depend on the time
  of the call (the number of steps taken so far). \<open>outputFilePath dir name\<close> stands for
  \<^verbatim>\<open>filepath.Join(dir, filepath.Base(name))\<close>.
\<close>

record env =
  httpHead :: "nat \<Rightarrow> string \<Rightarrow> headResult"
  newRequestFails :: "nat \<Rightarrow> string \<Rightarrow> bool"
  httpGet :: "nat \<Rightarrow> string \<Rightarrow> string option \<Rightarrow> getResult"
  statFails :: "nat \<Rightarrow> string \<Rightarrow> bool"
  createFails :: "nat \<Rightarrow> string \<Rightarrow> bool"
  createTempFails :: "nat \<Rightarrow> string \<Rightarrow> bool"
  combineFault :: "nat \<Rightarrow> int \<Rightarrow> nat option"
  outputFilePath :: "string \<Rightarrow> string \<Rightarrow> string"

text \<open>
  An open temporary file: its contents and the shared read/write cursor. A temporary
  file that was closed and removed is absent from \<open>temps\<close>.
\<close>

record tmpFile =
  t_data :: bytes
  t_off :: nat

record world =
  files :: "string \<Rightarrow> bytes option"
  temps :: "nat \<Rightarrow> tmpFile option"
  nextTemp :: nat

text \<open>Writing \<open>bs\<close> at offset \<open>off\<close> of a file: a hole is filled with zero bytes.\<close>

definition writeAt :: "bytes \<Rightarrow> nat \<Rightarrow> bytes \<Rightarrow> bytes" where
  "writeAt old off bs =
     take off old @ replicate (off - length old) (CHR 0x00) @ bs @ drop (off + length bs) old"

definition fileData :: "world \<Rightarrow> string \<Rightarrow> bytes" where
  "fileData w path = (case files w path of None \<Rightarrow> [] | Some d \<Rightarrow> d)"

section \<open>checkFileSizeWithHeaderContentLength (lines 251-272)\<close>

definition checkFileSizeWithHeaderContentLength :: "headResult \<Rightarrow> error + int" where
  "checkFileSizeWithHeaderContentLength resp =
     (case resp of
        HeadFailed \<Rightarrow> Inl ErrHeadRequest
      | HeadResponse code header \<Rightarrow>
          if code \<noteq> 200 then Inl (ErrHeadStatus code)
          else if header = [] then Inr 0
          else (case Atoi header of
                  None \<Rightarrow> Inl ErrContentLength
                | Some sz \<Rightarrow> Inr sz))"

section \<open>combineChunks (lines 185-201)\<close>

text \<open>
  \<^verbatim>\<open>fileChunks\<close> is a Go map from chunk index to file handle: an association list
  with distinct keys, \<open>map_of\<close> its lookup and \<open>length\<close> its \<^verbatim>\<open>len\<close>. The loop
  runs \<open>i\<close> from 0 while \<open>i < len(fileChunks)\<close>. For each index it seeks the handle
  to offset 0 and copies it, from there to its end, to the output file at the output's
  cursor \<open>off\<close>. A missing key yields a nil handle and a closed handle cannot be read:
  io.Copy fails on both. \<open>fault i = Some n\<close> makes the copy of chunk \<open>i\<close> fail after
  \<open>n\<close> bytes. The result is the error, the world and the output cursor.
\<close>

function combineLoop ::
  "(int \<Rightarrow> nat option) \<Rightarrow> (int \<times> nat) list \<Rightarrow> int \<Rightarrow> world \<Rightarrow> string \<Rightarrow> nat
     \<Rightarrow> error option \<times> world \<times> nat" where
  "combineLoop fault fileChunks i w path off =
     (if i < int (length fileChunks)
      then (case map_of fileChunks i of
              None \<Rightarrow> (Some ErrCombineCopy, w, off)
            | Some handle \<Rightarrow>
                (case temps w handle of
                   None \<Rightarrow> (Some ErrCombineCopy, w, off)
                 | Some f \<Rightarrow>
                     let copied = (case fault i of None \<Rightarrow> t_data f | Some n \<Rightarrow> take n (t_data f));
                         w' = w\<lparr>temps := (temps w)(handle \<mapsto> f\<lparr>t_off := length copied\<rparr>),
                                files := (files w)(path \<mapsto> writeAt (fileData w path) off copied)\<rparr>
                     in if fault i \<noteq> None
                        then (Some ErrCombineCopy, w', off + length copied)
                        else combineLoop fault fileChunks (i + 1) w' path (off + length copied)))
      else (None, w, off))"
  by pat_completeness auto
termination
  by (relation "measure (\<lambda>(fault, fileChunks, i, w, path, off). nat (int (length fileChunks) - i))")
     auto

declare combineLoop.simps [simp del]

definition combineChunks ::
  "(int \<Rightarrow> nat option) \<Rightarrow> (int \<times> nat) list \<Rightarrow> world \<Rightarrow> string \<Rightarrow> nat
     \<Rightarrow> error option \<times> world \<times> nat" where
  "combineChunks fault fileChunks w path off = combineLoop fault fileChunks 0 w path off"

section \<open>downloadFileForRange (lines 204-247)\<close>

text \<open>The request of lines 210-218: its URL and its Range header, if any.\<close>

definition rangeHeader :: "string \<Rightarrow> string option" where
  "rangeHeader byteRange = (if byteRange \<noteq> [] then Some (''bytes='' @ byteRange) else None)"

text \<open>
  \<^verbatim>\<open>io.Copy(file, response.Body)\<close> (line 241): the body arrives up to the place where
  the stream breaks and is written at the file's cursor. Writing to a closed file
  fails; nothing is written when nothing arrives. The result is the new table of
  temporary files and whether io.Copy returned an error.
\<close>

definition copyBody ::
  "(nat \<Rightarrow> tmpFile option) \<Rightarrow> nat \<Rightarrow> bytes \<Rightarrow> nat option \<Rightarrow> (nat \<Rightarrow> tmpFile option) \<times> bool" where
  "copyBody ts handle body fault =
     (let arrived = (case fault of None \<Rightarrow> body | Some n \<Rightarrow> take n body)
      in if arrived = [] then (ts, fault \<noteq> None)
         else (case ts handle of
                 None \<Rightarrow> (ts, True)
               | Some f \<Rightarrow>
                   (ts(handle \<mapsto> \<lparr>t_data = writeAt (t_data f) (t_off f) arrived,
                                   t_off = t_off f + length arrived\<rparr>),
                    fault \<noteq> None)))"

section \<open>The Downloader and its goroutines\<close>

record downloadOptions =
  DownloadDir :: string
  NumConcParts :: int
  MaxLimitConcurrency :: int

text \<open>
  One goroutine running downloadFileForRange. Its program counter says where it is:
  spawned (\<open>FStart\<close>); client.Do called with the given Range header and the response
  pending (\<open>FInFlight\<close>); the response handled and the deferred release of line 233
  due (\<open>FRelease\<close>); returned after that release (\<open>FDone\<close>); returned at line 213 or
  227, before the release was deferred (\<open>FAborted\<close>).
\<close>

datatype fetchPc = FStart | FInFlight "string option" | FRelease | FDone | FAborted

record fetch =
  f_pc :: fetchPc
  f_url :: string
  f_byteRange :: string
  f_file :: nat

text \<open>
  One goroutine running downloadLargeFile, with its locals and the goroutines it
  spawned: before os.Stat (\<open>JStat\<close>), before os.Create (\<open>JCreate\<close>), at the head of
  the loop of line 146 (\<open>JLoop\<close>), before the channel send of line 162 with the
  temporary file just created (\<open>JSend\<close>), before wg1.Wait (\<open>JWait\<close>), returned
  (\<open>JDone\<close>).
\<close>

datatype jobPc = JStat | JCreate | JLoop | JSend nat | JWait | JDone

record job =
  j_pc :: jobPc
  j_url :: string
  j_fileName :: string
  j_contentLength :: int
  j_outputFilePath :: string
  j_outOff :: nat
  j_plan :: plan
  j_i :: int
  j_index :: int
  j_fileChunks :: "(int \<times> nat) list"
  j_fetches :: "fetch list"

text \<open>
  The goroutine that called Download: before make (\<open>MStart\<close>), at the head of the loop
  for URL number \<open>k\<close> (\<open>MLoop\<close>), before the test of line 90 (\<open>MCheck\<close>), before
  wg.Wait (\<open>MWait\<close>), returned with its two results (\<open>MReturned\<close>).
\<close>

datatype mainPc = MStart | MLoop nat | MCheck nat | MWait | MReturned "string list" "error option"

text \<open>
  The fields of the Downloader (\<open>d_err\<close>, \<open>d_downloadPaths\<close>), the number of permits in
  the channel \<open>waitChan\<close>, the world, the time, whether a panic ended the process, and
  the goroutines.
\<close>

record state =
  d_err :: "error option"
  d_downloadPaths :: "string list"
  waitChan :: nat
  world :: world
  now :: nat
  crashed :: bool
  mainPc :: mainPc
  jobs :: "job list"

definition setJob :: "nat \<Rightarrow> job \<Rightarrow> state \<Rightarrow> state" where
  "setJob j jb s = s\<lparr>jobs := (jobs s)[j := jb]\<rparr>"

definition setFetch :: "nat \<Rightarrow> nat \<Rightarrow> fetch \<Rightarrow> state \<Rightarrow> state" where
  "setFetch j k f s =
     s\<lparr>jobs := (jobs s)[j := (jobs s ! j)\<lparr>j_fetches := (j_fetches (jobs s ! j))[k := f]\<rparr>]\<rparr>"

text \<open>The deferred \<^verbatim>\<open>os.Remove\<close> and \<^verbatim>\<open>f.Close\<close> of lines 159-160.\<close>

definition closeTemps :: "nat list \<Rightarrow> world \<Rightarrow> world" where
  "closeTemps hs w = w\<lparr>temps := (\<lambda>h. if h \<in> set hs then None else temps w h)\<rparr>"

subsection \<open>downloadFileForRange, step by step\<close>

text \<open>
  Fetch \<open>k\<close> of job \<open>j\<close> takes its next step; \<open>None\<close> when it cannot move. The
  release of line 233 receives from the channel and waits while the channel is empty.
\<close>

definition downloadFileForRange :: "env \<Rightarrow> nat \<Rightarrow> nat \<Rightarrow> state \<Rightarrow> state option" where
  "downloadFileForRange e j k s =
     (if j < length (jobs s) \<and> k < length (j_fetches (jobs s ! j))
      then
        (let f = j_fetches (jobs s ! j) ! k in
         case f_pc f of
           FStart \<Rightarrow>
             if newRequestFails e (now s) (f_url f)
             then Some (setFetch j k (f\<lparr>f_pc := FAborted\<rparr>) (s\<lparr>d_err := Some ErrNewRequest\<rparr>))
             else Some (setFetch j k (f\<lparr>f_pc := FInFlight (rangeHeader (f_byteRange f))\<rparr>) s)
         | FInFlight hdr \<Rightarrow>
             (case httpGet e (now s) (f_url f) hdr of
                GetFailed \<Rightarrow>
                  Some (setFetch j k (f\<lparr>f_pc := FAborted\<rparr>) (s\<lparr>d_err := Some ErrTransport\<rparr>))
              | GetResponse code body fault \<Rightarrow>
                  if code \<noteq> 200 \<and> code \<noteq> 206
                  then Some (setFetch j k (f\<lparr>f_pc := FRelease\<rparr>)
                               (s\<lparr>d_err := Some (ErrNot20X code)\<rparr>))
                  else
                    (let copied = copyBody (temps (world s)) (f_file f) body fault;
                         s' = s\<lparr>world := (world s)\<lparr>temps := fst copied\<rparr>\<rparr>
                     in Some (setFetch j k (f\<lparr>f_pc := FRelease\<rparr>)
                                (if snd copied then s'\<lparr>d_err := Some ErrCopyResponse\<rparr> else s'))))
         | FRelease \<Rightarrow>
             if 0 < waitChan s
             then Some (setFetch j k (f\<lparr>f_pc := FDone\<rparr>) (s\<lparr>waitChan := waitChan s - 1\<rparr>))
             else None
         | FDone \<Rightarrow> None
         | FAborted \<Rightarrow> None)
      else None)"

subsection \<open>downloadLargeFile, step by step\<close>

definition fetchReturned :: "fetch \<Rightarrow> bool" where
  "fetchReturned f = (f_pc f = FDone \<or> f_pc f = FAborted)"

text \<open>The byte range argument of line 165.\<close>

definition byteRangeArg :: "plan \<Rightarrow> int \<Rightarrow> string" where
  "byteRangeArg p i = Itoa (fst (chunkBounds p i)) @ ''-'' @ Itoa (snd (chunkBounds p i))"

text \<open>
  Job \<open>j\<close> takes its next step; \<open>None\<close> when it cannot move. The send of line 162
  waits while the channel is full, wg1.Wait while a fetch of this job has not returned.
  A return runs the deferred removals of the temporary files created so far.
\<close>

definition downloadLargeFile :: "env \<Rightarrow> downloadOptions \<Rightarrow> nat \<Rightarrow> state \<Rightarrow> state option" where
  "downloadLargeFile e opts j s =
     (if j < length (jobs s)
      then
        (let jb = jobs s ! j; w = world s; path = j_outputFilePath jb in
         case j_pc jb of
           JStat \<Rightarrow>
             if files w path \<noteq> None \<or> statFails e (now s) path
             then Some (setJob j (jb\<lparr>j_pc := JDone\<rparr>) (s\<lparr>d_err := Some (ErrFileExists path)\<rparr>))
             else Some (setJob j (jb\<lparr>j_pc := JCreate\<rparr>) s)
         | JCreate \<Rightarrow>
             if createFails e (now s) path
             then Some (setJob j (jb\<lparr>j_pc := JDone\<rparr>) (s\<lparr>d_err := Some (ErrCreatingFile path)\<rparr>))
             else
               (let s' = s\<lparr>world := w\<lparr>files := (files w)(path \<mapsto> [])\<rparr>\<rparr>
                in case planParts (j_contentLength jb) (NumConcParts opts) of
                     None \<Rightarrow> Some (s'\<lparr>crashed := True\<rparr>)
                   | Some p \<Rightarrow>
                       Some (setJob j (jb\<lparr>j_pc := JLoop, j_outOff := 0, j_plan := p, j_i := 0,
                                          j_index := 0, j_fileChunks := []\<rparr>) s'))
         | JLoop \<Rightarrow>
             if j_i jb < numConcParts (j_plan jb)
             then
               (if createTempFails e (now s) (j_fileName jb)
                then Some (setJob j (jb\<lparr>j_pc := JDone\<rparr>)
                             (s\<lparr>d_err := Some ErrTempFile,
                                world := closeTemps (map snd (j_fileChunks jb)) w\<rparr>))
                else Some (setJob j
                             (jb\<lparr>j_pc := JSend (nextTemp w),
                                 j_fileChunks :=
                                   AList.update (j_index jb) (nextTemp w) (j_fileChunks jb)\<rparr>)
                             (s\<lparr>world := w\<lparr>temps := (temps w)(nextTemp w \<mapsto> \<lparr>t_data = [], t_off = 0\<rparr>),
                                            nextTemp := Suc (nextTemp w)\<rparr>\<rparr>)))
             else
               (case d_err s of
                  Some err \<Rightarrow>
                    Some (setJob j (jb\<lparr>j_pc := JDone\<rparr>)
                            (s\<lparr>d_err := Some (ErrDownloadingRange err),
                               world := closeTemps (map snd (j_fileChunks jb)) w\<rparr>))
                | None \<Rightarrow> Some (setJob j (jb\<lparr>j_pc := JWait\<rparr>) s))
         | JSend f \<Rightarrow>
             if int (waitChan s) < MaxLimitConcurrency opts
             then Some (setJob j
                          (jb\<lparr>j_pc := JLoop,
                              j_fetches := j_fetches jb @
                                [\<lparr>f_pc = FStart, f_url = j_url jb,
                                  f_byteRange = byteRangeArg (j_plan jb) (j_i jb), f_file = f\<rparr>],
                              j_index := j_index jb + 1, j_i := j_i jb + 1\<rparr>)
                          (s\<lparr>waitChan := Suc (waitChan s)\<rparr>))
             else None
         | JWait \<Rightarrow>
             if list_all fetchReturned (j_fetches jb)
             then
               (let r = combineChunks (combineFault e (now s)) (j_fileChunks jb) w path (j_outOff jb);
                    w' = closeTemps (map snd (j_fileChunks jb)) (fst (snd r));
                    jb' = jb\<lparr>j_pc := JDone, j_outOff := snd (snd r)\<rparr>
                in case fst r of
                     Some err \<Rightarrow> Some (setJob j jb' (s\<lparr>d_err := Some err, world := w'\<rparr>))
                   | None \<Rightarrow>
                       Some (setJob j jb'
                               (s\<lparr>d_downloadPaths := d_downloadPaths s @ [path], world := w'\<rparr>)))
             else None
         | JDone \<Rightarrow> None)
      else None)"

subsection \<open>Download, step by step\<close>

text \<open>The goroutine line 89 starts, with the output path of line 117.\<close>

definition newJob :: "env \<Rightarrow> downloadOptions \<Rightarrow> string \<Rightarrow> string \<Rightarrow> int \<Rightarrow> job" where
  "newJob e opts url fileName contentLength =
     \<lparr>j_pc = JStat, j_url = url, j_fileName = fileName, j_contentLength = contentLength,
      j_outputFilePath = outputFilePath e (DownloadDir opts) fileName, j_outOff = 0,
      j_plan = \<lparr>numConcParts = 0, totalBytesPerGoroutine = 0, lastByteLeft = 0\<rparr>,
      j_i = 0, j_index = 0, j_fileChunks = [], j_fetches = []\<rparr>"

definition jobReturned :: "job \<Rightarrow> bool" where
  "jobReturned jb = (j_pc jb = JDone)"

text \<open>
  The caller's goroutine takes its next step; \<open>None\<close> when it cannot move. make panics
  on a negative capacity. The early returns of lines 86 and 91 return the named result
  \<^verbatim>\<open>downloadPaths\<close>, which is never assigned: the empty list. wg.Wait waits while a
  job of this call has not returned.
\<close>

definition Download :: "env \<Rightarrow> downloadOptions \<Rightarrow> string list \<Rightarrow> state \<Rightarrow> state option" where
  "Download e opts fileUrls s =
     (case mainPc s of
        MStart \<Rightarrow>
          if MaxLimitConcurrency opts < 0 then Some (s\<lparr>crashed := True\<rparr>)
          else Some (s\<lparr>mainPc := MLoop 0\<rparr>)
      | MLoop k \<Rightarrow>
          if k < length fileUrls
          then
            (let fileUri = fileUrls ! k; fileName = lastSegment fileUri
             in case checkFileSizeWithHeaderContentLength (httpHead e (now s) fileUri) of
                  Inl err \<Rightarrow> Some (s\<lparr>mainPc := MReturned [] (Some ErrCheckingSize)\<rparr>)
                | Inr fileSize \<Rightarrow>
                    Some (s\<lparr>mainPc := MCheck k,
                            jobs := jobs s @ [newJob e opts fileUri fileName fileSize]\<rparr>))
          else Some (s\<lparr>mainPc := MWait\<rparr>)
      | MCheck k \<Rightarrow>
          (case d_err s of
             Some err \<Rightarrow> Some (s\<lparr>mainPc := MReturned [] (Some ErrProcessing)\<rparr>)
           | None \<Rightarrow> Some (s\<lparr>mainPc := MLoop (Suc k)\<rparr>))
      | MWait \<Rightarrow>
          if list_all jobReturned (jobs s)
          then Some (s\<lparr>mainPc := MReturned (d_downloadPaths s) None\<rparr>)
          else None
      | MReturned ps err \<Rightarrow> None)"

subsection \<open>Interleaving\<close>

text \<open>
  A schedule names the goroutine that moves next. A goroutine that cannot move, or does
  not exist, leaves the state as it is; after a panic nothing moves. Every step takes
  one unit of time.
\<close>

datatype tid = TMain | TJob nat | TFetch nat nat

definition step :: "env \<Rightarrow> downloadOptions \<Rightarrow> string list \<Rightarrow> tid \<Rightarrow> state \<Rightarrow> state option" where
  "step e opts fileUrls t s =
     (if crashed s then None
      else map_option (\<lambda>s'. s'\<lparr>now := Suc (now s')\<rparr>)
             (case t of
                TMain \<Rightarrow> Download e opts fileUrls s
              | TJob j \<Rightarrow> downloadLargeFile e opts j s
              | TFetch j k \<Rightarrow> downloadFileForRange e j k s))"

fun run :: "env \<Rightarrow> downloadOptions \<Rightarrow> string list \<Rightarrow> tid list \<Rightarrow> state \<Rightarrow> state" where
  "run e opts fileUrls [] s = s"
| "run e opts fileUrls (t # ts) s =
     (case step e opts fileUrls t s of
        None \<Rightarrow> run e opts fileUrls ts s
      | Some s' \<Rightarrow> run e opts fileUrls ts s')"

text \<open>
  The state in which Download is called on a Downloader with the given fields; for
  \<^verbatim>\<open>NewDownloader\<close> they are \<open>None\<close> and \<open>[]\<close>.
\<close>

definition initState :: "error option \<Rightarrow> string list \<Rightarrow> world \<Rightarrow> state" where
  "initState err paths w =
     \<lparr>d_err = err, d_downloadPaths = paths, waitChan = 0, world = w, now = 0,
      crashed = False, mainPc = MStart, jobs = []\<rparr>"

text \<open>
  The fetches of a state that hold a permit (spawned and not yet released), and those in
  flight (client.Do called, permit not yet released).
\<close>

definition holdsPermit :: "fetch \<Rightarrow> bool" where
  "holdsPermit f = (f_pc f \<noteq> FDone)"

definition inFlight :: "fetch \<Rightarrow> bool" where
  "inFlight f = (case f_pc f of FInFlight hdr \<Rightarrow> True | FRelease \<Rightarrow> True | _ \<Rightarrow> False)"

definition countFetches :: "(fetch \<Rightarrow> bool) \<Rightarrow> state \<Rightarrow> nat" where
  "countFetches P s = sum_list (map (\<lambda>jb. length (filter P (j_fetches jb))) (jobs s))"

section \<open>Invariants and example scenarios\<close>

text \<open>
  The limiter's invariant: the permits in the channel are exactly the fetches that were
  spawned and have not released, and they never exceed the capacity.
\<close>

definition permitInv :: "downloadOptions \<Rightarrow> state \<Rightarrow> bool" where
  "permitInv opts s =
     (countFetches holdsPermit s = waitChan s \<and> int (waitChan s) \<le> MaxLimitConcurrency opts)"





text \<open>
  A failed probe, in the words of the spec: a transport error, a status other than 200,
  or a Content-Length header that does not parse as an integer.
\<close>

definition probeFails :: "headResult \<Rightarrow> bool" where
  "probeFails r =
     (case r of
        HeadFailed \<Rightarrow> True
      | HeadResponse code header \<Rightarrow> code \<noteq> 200 \<or> (header \<noteq> [] \<and> Atoi header = None))"

text \<open>
  Where Download can be when the probe of URL number \<open>k\<close> fails: not beyond that URL,
  with one job per URL before it, never at wg.Wait, and returned only with an error
  and no path. The rank counts the steps Download has taken on the way.
\<close>

definition abortedAt :: "nat \<Rightarrow> state \<Rightarrow> bool" where
  "abortedAt k s =
     (case mainPc s of
        MStart \<Rightarrow> length (jobs s) = 0
      | MLoop i \<Rightarrow> i \<le> k \<and> length (jobs s) = i
      | MCheck i \<Rightarrow> i < k \<and> length (jobs s) = Suc i
      | MWait \<Rightarrow> False
      | MReturned ps err \<Rightarrow> length (jobs s) \<le> k \<and> ps = [] \<and> err \<noteq> None)"

definition mainRank :: "nat \<Rightarrow> mainPc \<Rightarrow> nat" where
  "mainRank k pc =
     (case pc of
        MStart \<Rightarrow> 0
      | MLoop i \<Rightarrow> 2 * i + 1
      | MCheck i \<Rightarrow> 2 * i + 2
      | MWait \<Rightarrow> 2 * k + 2
      | MReturned ps err \<Rightarrow> 2 * k + 2)"

text \<open>
  An environment in which the operating system never fails, new requests can always be
  built and the output path is the directory, a slash and the file name; the HTTP server
  is given by its answers to HEAD and GET. The empty world has no files.
\<close>

definition exampleEnv ::
  "(string \<Rightarrow> headResult) \<Rightarrow> (string \<Rightarrow> string option \<Rightarrow> getResult) \<Rightarrow> env" where
  "exampleEnv hdr gt =
     \<lparr>httpHead = (\<lambda>t. hdr), newRequestFails = (\<lambda>t u. False), httpGet = (\<lambda>t. gt),
      statFails = (\<lambda>t p. False), createFails = (\<lambda>t p. False),
      createTempFails = (\<lambda>t p. False), combineFault = (\<lambda>t i. None),
      outputFilePath = (\<lambda>d n. d @ ''/'' @ n)\<rparr>"

definition emptyWorld :: world where
  "emptyWorld = \<lparr>files = (\<lambda>p. None), temps = (\<lambda>h. None), nextTemp = 0\<rparr>"

text \<open>
  A 20 MiB file in two parts under a limit of one permit: the first fetch is in flight
  and the job waits to send the second permit.
\<close>

definition limiterRun :: state where
  "limiterRun =
     run (exampleEnv (\<lambda>u. HeadResponse 200 ''20971520'') (\<lambda>u h. GetResponse 206 ''ab'' None))
       \<lparr>DownloadDir = ''dir'', NumConcParts = 2, MaxLimitConcurrency = 1\<rparr>
       [''http://h/big'']
       [TMain, TMain, TJob 0, TJob 0, TJob 0, TJob 0, TJob 0, TJob 0, TFetch 0 0]
       (initState None [] emptyWorld)"

text \<open>
  A world for combineChunks: an empty output file and two temporary files, written to
  their ends.
\<close>

definition combineWorld :: world where
  "combineWorld =
     \<lparr>files = (\<lambda>p. if p = ''dir/f'' then Some [] else None),
      temps = (\<lambda>h. if h = 7 then Some \<lparr>t_data = ''ab'', t_off = 2\<rparr>
                   else if h = 8 then Some \<lparr>t_data = ''cd'', t_off = 2\<rparr> else None),
      nextTemp = 9\<rparr>"


text \<open>
  One URL whose HEAD answers 200 with Content-Length 5 and whose GET answers 404. The
  job plans one range, spawns its fetch and passes the test of line 169 before the
  fetch gets its response; the fetch records the status error and releases; the job
  combines and returns; Download returns from wg.Wait.
\<close>

definition notFoundRun :: state where
  "notFoundRun =
     run (exampleEnv (\<lambda>u. HeadResponse 200 ''5'') (\<lambda>u h. GetResponse 404 [] None))
       \<lparr>DownloadDir = ''dir'', NumConcParts = 2, MaxLimitConcurrency = 5\<rparr>
       [''http://h/f'']
       [TMain, TMain, TMain, TMain, TJob 0, TJob 0, TJob 0, TJob 0, TJob 0,
        TFetch 0 0, TFetch 0 0, TFetch 0 0, TJob 0, TMain]
       (initState None [] emptyWorld)"

text \<open>
  The same URL and schedule when client.Do fails (a transport error), and when
  http.NewRequest fails.
\<close>

definition transportFailRun :: state where
  "transportFailRun =
     run (exampleEnv (\<lambda>u. HeadResponse 200 ''5'') (\<lambda>u h. GetFailed))
       \<lparr>DownloadDir = ''dir'', NumConcParts = 2, MaxLimitConcurrency = 5\<rparr>
       [''http://h/f'']
       [TMain, TMain, TMain, TMain, TJob 0, TJob 0, TJob 0, TJob 0, TJob 0,
        TFetch 0 0, TFetch 0 0, TFetch 0 0, TJob 0, TMain]
       (initState None [] emptyWorld)"

definition newRequestFailRun :: state where
  "newRequestFailRun =
     run ((exampleEnv (\<lambda>u. HeadResponse 200 ''5'') (\<lambda>u h. GetResponse 200 ''hello'' None))
            \<lparr>newRequestFails := (\<lambda>t u. True)\<rparr>)
       \<lparr>DownloadDir = ''dir'', NumConcParts = 2, MaxLimitConcurrency = 5\<rparr>
       [''http://h/f'']
       [TMain, TMain, TMain, TMain, TJob 0, TJob 0, TJob 0, TJob 0, TJob 0,
        TFetch 0 0, TFetch 0 0, TFetch 0 0, TJob 0, TMain]
       (initState None [] emptyWorld)"

text \<open>
  The same URL answering GET with 206 and the five bytes, stopped when the fetch has
  called client.Do; and the whole download.
\<close>

definition smallFileRun :: state where
  "smallFileRun =
     run (exampleEnv (\<lambda>u. HeadResponse 200 ''5'') (\<lambda>u h. GetResponse 206 ''hello'' None))
       \<lparr>DownloadDir = ''dir'', NumConcParts = 2, MaxLimitConcurrency = 5\<rparr>
       [''http://h/f'']
       [TMain, TMain, TMain, TMain, TJob 0, TJob 0, TJob 0, TJob 0, TJob 0, TFetch 0 0]
       (initState None [] emptyWorld)"






section \<open>The chunk plan partitions the file\<close>

lemma wrap64_id: "isInt64 x \<Longrightarrow> wrap64 x = x"
  by (simp add: wrap64_def isInt64_def)

lemma rangeLoop_length: "length (rangeLoop p i index) = nat (numConcParts p - i)"
proof (induction p i index rule: rangeLoop.induct)
  case (1 p i index)
  show ?case
  proof (cases "i < numConcParts p")
    case True
    then have "length (rangeLoop p i index) = Suc (length (rangeLoop p (i + 1) (index + 1)))"
      by (subst rangeLoop.simps) simp
    with 1 True show ?thesis by (simp add: nat_diff_distrib)
  next
    case False
    then show ?thesis by (subst rangeLoop.simps) simp
  qed
qed

lemma rangeLoop_upto:
  "rangeLoop p i index =
     map (\<lambda>k. \<lparr>r_index = index + (k - i), r_min = fst (chunkBounds p k),
               r_max = snd (chunkBounds p k)\<rparr>) [i..numConcParts p - 1]"
proof (induction p i index rule: rangeLoop.induct)
  case (1 p i index)
  show ?case
  proof (cases "i < numConcParts p")
    case True
    have up: "[i..numConcParts p - 1] = i # [i + 1..numConcParts p - 1]"
      using True by (simp add: upto_rec1)
    have "rangeLoop p i index =
        \<lparr>r_index = index, r_min = fst (chunkBounds p i), r_max = snd (chunkBounds p i)\<rparr>
          # rangeLoop p (i + 1) (index + 1)"
      using True by (subst rangeLoop.simps) simp
    also have "rangeLoop p (i + 1) (index + 1) =
        map (\<lambda>k. \<lparr>r_index = index + (k - i), r_min = fst (chunkBounds p k),
               r_max = snd (chunkBounds p k)\<rparr>) [i + 1..numConcParts p - 1]"
      using 1 [OF True] by (simp add: algebra_simps)
    finally show ?thesis by (simp add: up)
  next
    case False
    then show ?thesis by (subst rangeLoop.simps) simp
  qed
qed

lemma sdiv_pos: "0 \<le> (a::int) \<Longrightarrow> 0 < b \<Longrightarrow> a sdiv b = a div b"
  by (cases "a = 0") (simp_all add: signed_divide_int_def)

lemma smod_pos: "0 \<le> (a::int) \<Longrightarrow> 0 < b \<Longrightarrow> a smod b = a mod b"
  by (cases "a = 0") (simp_all add: signed_modulo_int_def)

lemma base_mult_le:
  assumes "0 \<le> (L::int)" "0 < P" "0 \<le> k" "k \<le> P"
  shows "L div P * k \<le> L" "0 \<le> L div P * k"
proof -
  have "0 \<le> L div P" using assms by (simp add: pos_imp_zdiv_nonneg_iff)
  then have "L div P * k \<le> L div P * P" using assms by (intro mult_left_mono) auto
  also have "\<dots> \<le> L"
  proof -
    have "L div P * P + L mod P = L" by simp
    moreover have "0 \<le> L mod P" using assms by simp
    ultimately show ?thesis by linarith
  qed
  finally show "L div P * k \<le> L" .
  show "0 \<le> L div P * k" using \<open>0 \<le> L div P\<close> assms by simp
qed

lemma chunkBounds_large:
  assumes L: "0 \<le> L" "L < 2 ^ 63" and P: "1 \<le> P" "P < 2 ^ 63" and i: "0 \<le> i" "i < P"
  shows "chunkBounds \<lparr>numConcParts = P, totalBytesPerGoroutine = L div P,
                       lastByteLeft = L mod P\<rparr> i =
         (i * (L div P), (i + 1) * (L div P) - 1 + (if i = P - 1 then L mod P else 0))"
proof -
  let ?b = "L div P"
  have m1: "0 \<le> ?b * i" "?b * i \<le> L" using base_mult_le [of L P i] L P i by auto
  have m2: "0 \<le> ?b * (i + 1)" "?b * (i + 1) \<le> L"
    using base_mult_le [of L P "i + 1"] L P i by auto
  have bP: "?b * P + L mod P = L" by (simp add: mult.commute)
  have r0: "0 \<le> L mod P" "L mod P < P" using P by simp_all
  have e1: "mul64 ?b i = i * ?b" unfolding mul64_def
    using m1 L by (subst wrap64_id) (simp_all add: isInt64_def mult.commute)
  have e2: "add64 i 1 = i + 1" unfolding add64_def
    using i P by (intro wrap64_id) (simp add: isInt64_def)
  have e3: "mul64 ?b (i + 1) = (i + 1) * ?b" unfolding mul64_def
    using m2 L by (subst wrap64_id) (simp_all add: isInt64_def mult.commute)
  have e4: "sub64 ((i + 1) * ?b) 1 = (i + 1) * ?b - 1" unfolding sub64_def
    using m2 L by (intro wrap64_id) (simp add: isInt64_def mult.commute)
  have e5: "sub64 P 1 = P - 1" unfolding sub64_def
    using P by (intro wrap64_id) (simp add: isInt64_def)
  have e6: "add64 ((i + 1) * ?b - 1) (L mod P) = (i + 1) * ?b - 1 + L mod P"
    if "i = P - 1"
    unfolding add64_def using bP L r0 m2 that
    by (intro wrap64_id) (simp add: isInt64_def mult.commute)
  have mn: "fst (chunkBounds \<lparr>numConcParts = P, totalBytesPerGoroutine = ?b,
                       lastByteLeft = L mod P\<rparr> i) = i * ?b"
    by (simp add: chunkBounds_def Let_def e1)
  have mx: "snd (chunkBounds \<lparr>numConcParts = P, totalBytesPerGoroutine = ?b,
                       lastByteLeft = L mod P\<rparr> i) =
       (i + 1) * ?b - 1 + (if i = P - 1 then L mod P else 0)"
  proof -
    have "snd (chunkBounds \<lparr>numConcParts = P, totalBytesPerGoroutine = ?b,
                       lastByteLeft = L mod P\<rparr> i) =
          (if i = sub64 P 1 \<and> 0 < L mod P
           then add64 (sub64 (mul64 ?b (add64 i 1)) 1) (L mod P)
           else sub64 (mul64 ?b (add64 i 1)) 1)"
      by (simp add: chunkBounds_def Let_def)
    also have "\<dots> = (if i = P - 1 \<and> 0 < L mod P
           then add64 ((i + 1) * ?b - 1) (L mod P)
           else (i + 1) * ?b - 1)"
      by (simp only: e2 e3 e4 e5)
    also have "\<dots> = (i + 1) * ?b - 1 + (if i = P - 1 then L mod P else 0)"
    proof (cases "i = P - 1")
      case True
      show ?thesis
      proof (cases "0 < L mod P")
        case pos: True
        show ?thesis using e6 [OF True] True pos by (simp only: if_True simp_thms)
      next
        case False
        with r0 have "L mod P = 0" by simp
        then show ?thesis by simp
      qed
    next
      case False
      then show ?thesis by simp
    qed
    finally show ?thesis .
  qed
  show ?thesis using mn mx by (simp add: prod_eq_iff)
qed

lemma plannedRanges_large:
  assumes "1024 * 1024 * 10 < L" "L < 2 ^ 63" "1 \<le> P" "P < 2 ^ 63"
  shows "plannedRanges L P = Some (map (specRange L P) [0..P - 1])"
proof -
  let ?p = "\<lparr>numConcParts = P, totalBytesPerGoroutine = L div P, lastByteLeft = L mod P\<rparr>"
  have pp: "planParts L P = Some ?p"
    using assms by (simp add: planParts_def sdiv_pos smod_pos)
  have "map (\<lambda>k. \<lparr>r_index = k, r_min = fst (chunkBounds ?p k),
                   r_max = snd (chunkBounds ?p k)\<rparr>) [0..P - 1] =
        map (specRange L P) [0..P - 1]"
  proof (rule map_cong [OF refl])
    fix k assume "k \<in> set [0..P - 1]"
    then have k: "0 \<le> k" "k < P" by auto
    show "\<lparr>r_index = k, r_min = fst (chunkBounds ?p k),
            r_max = snd (chunkBounds ?p k)\<rparr> = specRange L P k"
      using chunkBounds_large [of L P k] assms k by (simp add: specRange_def)
  qed
  then have "rangeLoop ?p 0 0 = map (specRange L P) [0..P - 1]"
    by (simp add: rangeLoop_upto)
  with pp show ?thesis by (simp add: plannedRanges_def)
qed

lemma plannedRanges_small:
  assumes "0 \<le> L" "L \<le> 1024 * 1024 * 10"
  shows "plannedRanges L P = Some [\<lparr>r_index = 0, r_min = 0, r_max = L - 1\<rparr>]"
proof -
  let ?p = "\<lparr>numConcParts = 1, totalBytesPerGoroutine = 0, lastByteLeft = L\<rparr>"
  have pp: "planParts L P = Some ?p" using assms by (simp add: planParts_def)
  have w: "wrap64 (L - 1) = L - 1"
    using assms by (intro wrap64_id) (simp add: isInt64_def)
  have cb: "chunkBounds ?p 0 = (0, L - 1)"
    using assms w
    by (auto simp: chunkBounds_def Let_def mul64_def add64_def sub64_def wrap64_def)
  have "rangeLoop ?p 0 0 = [\<lparr>r_index = 0, r_min = 0, r_max = L - 1\<rparr>]"
    by (subst rangeLoop.simps, subst rangeLoop.simps) (simp add: cb)
  with pp show ?thesis by (simp add: plannedRanges_def)
qed


lemma contiguous_nthI:
  "(\<And>k. Suc k < length rs \<Longrightarrow> r_min (rs ! Suc k) = r_max (rs ! k) + 1) \<Longrightarrow> contiguous rs"
proof (induction rs rule: contiguous.induct)
  case (1 a b rs)
  have "r_min b = r_max a + 1" using 1(2) [of 0] by simp
  moreover have "contiguous (b # rs)"
  proof (rule 1(1))
    fix k assume "Suc k < length (b # rs)"
    then show "r_min ((b # rs) ! Suc k) = r_max ((b # rs) ! k) + 1"
      using 1(2) [of "Suc k"] by simp
  qed
  ultimately show ?case by simp
qed simp_all

lemma nonOverlapping_nthI:
  "(\<And>k. Suc k < length rs \<Longrightarrow> r_max (rs ! k) < r_min (rs ! Suc k)) \<Longrightarrow> nonOverlapping rs"
proof (induction rs rule: nonOverlapping.induct)
  case (1 a b rs)
  have "r_max a < r_min b" using 1(2) [of 0] by simp
  moreover have "nonOverlapping (b # rs)"
  proof (rule 1(1))
    fix k assume "Suc k < length (b # rs)"
    then show "r_max ((b # rs) ! k) < r_min ((b # rs) ! Suc k)"
      using 1(2) [of "Suc k"] by simp
  qed
  ultimately show ?case by simp
qed simp_all

lemma strictlyIncreasing_nthI:
  "(\<And>k. Suc k < length rs \<Longrightarrow>
      r_min (rs ! k) < r_min (rs ! Suc k) \<and> r_max (rs ! k) < r_max (rs ! Suc k))
   \<Longrightarrow> strictlyIncreasing rs"
proof (induction rs rule: strictlyIncreasing.induct)
  case (1 a b rs)
  have "r_min a < r_min b \<and> r_max a < r_max b" using 1(2) [of 0] by simp
  moreover have "strictlyIncreasing (b # rs)"
  proof (rule 1(1))
    fix k assume "Suc k < length (b # rs)"
    then show "r_min ((b # rs) ! k) < r_min ((b # rs) ! Suc k) \<and>
               r_max ((b # rs) ! k) < r_max ((b # rs) ! Suc k)"
      using 1(2) [of "Suc k"] by simp
  qed
  ultimately show ?case by simp
qed simp_all

lemma contiguous_union:
  "rs \<noteq> [] \<Longrightarrow> contiguous rs \<Longrightarrow> (\<And>r. r \<in> set rs \<Longrightarrow> r_min r \<le> r_max r + 1) \<Longrightarrow>
   \<Union> (bytesOf ` set rs) = {r_min (hd rs) .. r_max (last rs)} \<and>
   r_min (hd rs) \<le> r_max (last rs) + 1"
proof (induction rs rule: contiguous.induct)
  case (1 a b rs)
  have ih: "\<Union> (bytesOf ` set (b # rs)) = {r_min b .. r_max (last (b # rs))}"
       "r_min b \<le> r_max (last (b # rs)) + 1"
    using 1 by auto
  have a: "r_min a \<le> r_max a + 1" "r_min b = r_max a + 1" using 1 by auto
  have "\<Union> (bytesOf ` set (a # b # rs)) = bytesOf a \<union> \<Union> (bytesOf ` set (b # rs))"
    by simp
  also have "\<dots> = {r_min a .. r_max a} \<union> {r_max a + 1 .. r_max (last (b # rs))}"
    using ih a by (simp add: bytesOf_def)
  also have "\<dots> = {r_min a .. r_max (last (b # rs))}"
    using a ih by auto
  finally show ?case using a ih by simp
qed (simp_all add: bytesOf_def)

lemma specRange_nth:
  "k < nat P \<Longrightarrow> map (specRange L P) [0..P - 1] ! k = specRange L P (int k)"
  by (simp add: nth_upto)


lemma specRange_facts:
  assumes "0 \<le> L" "1 \<le> P"
  shows "r_min (specRange L P i) = i * (L div P)"
    and "i \<noteq> P - 1 \<Longrightarrow> r_max (specRange L P i) = (i + 1) * (L div P) - 1"
    and "r_max (specRange L P (P - 1)) = L - 1"
proof -
  have "P * (L div P) + L mod P = L" by simp
  then show "r_max (specRange L P (P - 1)) = L - 1"
    by (simp add: specRange_def)
qed (simp_all add: specRange_def)

text \<open>
  Claim C1, as amended. For every content length \<open>L\<close> above 10 MiB (a Go \<^verbatim>\<open>int\<close>) and every
  part count \<open>P\<close> with \<open>1 \<le> P \<le> L\<close>, the planning loop of downloadLargeFile requests
  exactly \<open>P\<close> ranges; range \<open>i\<close> is \<open>[i * (L div P), (i + 1) * (L div P) - 1]\<close>, the last
  one extended by \<open>L mod P\<close>. In index order the ranges are contiguous, non-overlapping
  and strictly increasing, the first starts at 0, the last ends at \<open>L - 1\<close>, and together
  they cover exactly the bytes \<open>0 .. L - 1\<close>.
\<close>

theorem chunk_plan_partitions:
  assumes "1024 * 1024 * 10 < L" and "L < 2 ^ 63" and "1 \<le> P" and "P \<le> L"
  shows "plannedRanges L P = Some (map (specRange L P) [0..P - 1]) \<and>
         length (map (specRange L P) [0..P - 1]) = nat P \<and>
         contiguous (map (specRange L P) [0..P - 1]) \<and>
         nonOverlapping (map (specRange L P) [0..P - 1]) \<and>
         strictlyIncreasing (map (specRange L P) [0..P - 1]) \<and>
         r_min (hd (map (specRange L P) [0..P - 1])) = 0 \<and>
         r_max (last (map (specRange L P) [0..P - 1])) = L - 1 \<and>
         \<Union> (bytesOf ` set (map (specRange L P) [0..P - 1])) = {0..<L}"
proof -
  let ?rs = "map (specRange L P) [0..P - 1]"
  let ?b = "L div P"
  have L0: "0 \<le> L" using assms by simp
  have b1: "1 \<le> ?b" using assms pos_imp_zdiv_pos_iff [of P L] by simp
  have r0: "0 \<le> L mod P" using assms by simp
  have len: "length ?rs = nat P" by simp
  have ne: "?rs \<noteq> []" using assms by simp
  have nth: "?rs ! k = specRange L P (int k)" if "k < nat P" for k
    using that by (rule specRange_nth)
  have step: "?rs ! k = specRange L P (int k) \<and> ?rs ! Suc k = specRange L P (int k + 1) \<and>
              int k \<noteq> P - 1"
    if "Suc k < nat P" for k
  proof -
    have "?rs ! k = specRange L P (int k)" using that by (intro nth) simp
    moreover have "?rs ! Suc k = specRange L P (int (Suc k))" using that by (intro nth)
    moreover have "int k \<noteq> P - 1" using that by linarith
    ultimately show ?thesis by (simp add: add.commute)
  qed
  have c: "contiguous ?rs"
  proof (rule contiguous_nthI)
    fix k assume "Suc k < length ?rs"
    then have k: "Suc k < nat P" by simp
    show "r_min (?rs ! Suc k) = r_max (?rs ! k) + 1"
      using step [OF k] by (simp add: specRange_def algebra_simps)
  qed
  have n: "nonOverlapping ?rs"
  proof (rule nonOverlapping_nthI)
    fix k assume "Suc k < length ?rs"
    then have k: "Suc k < nat P" by simp
    show "r_max (?rs ! k) < r_min (?rs ! Suc k)"
      using step [OF k] by (simp add: specRange_def algebra_simps)
  qed
  have s: "strictlyIncreasing ?rs"
  proof (rule strictlyIncreasing_nthI)
    fix k assume "Suc k < length ?rs"
    then have k: "Suc k < nat P" by simp
    show "r_min (?rs ! k) < r_min (?rs ! Suc k) \<and> r_max (?rs ! k) < r_max (?rs ! Suc k)"
      using step [OF k] b1 r0 by (simp add: specRange_def algebra_simps)
  qed
  have h: "r_min (hd ?rs) = 0"
  proof -
    have "hd ?rs = ?rs ! 0" using ne by (simp add: hd_conv_nth)
    then show ?thesis using assms nth [of 0] by (simp add: specRange_def)
  qed
  have l: "r_max (last ?rs) = L - 1"
  proof -
    have "last ?rs = specRange L P (last [0..P - 1])" using assms by (simp add: last_map)
    also have "last [0..P - 1] = P - 1" using assms by (simp add: upto_rec2)
    finally show ?thesis by (simp add: specRange_facts [OF L0 assms(3)])
  qed
  have u: "\<Union> (bytesOf ` set ?rs) = {0..<L}"
  proof -
    have "r_min r \<le> r_max r + 1" if "r \<in> set ?rs" for r
    proof -
      from that obtain i where i: "0 \<le> i" "i < P" "r = specRange L P i" by auto
      have "0 \<le> ?b" using b1 by simp
      then show ?thesis using i r0 by (simp add: specRange_def algebra_simps)
    qed
    from contiguous_union [OF ne c this]
    have "\<Union> (bytesOf ` set ?rs) = {r_min (hd ?rs) .. r_max (last ?rs)}" by simp
    then show ?thesis by (simp add: h l atLeastLessThan_def atLeastAtMost_def atMost_def lessThan_def) 
  qed
  show ?thesis
    using plannedRanges_large [of L P] assms len c n s h l u by simp
qed

text \<open>
  Witness for C1: a file of 10 MiB + 3 bytes in 3 parts; the last part takes the
  remainder byte.
\<close>

theorem chunk_plan_partitions_witness:
  "(1024 * 1024 * 10 < (10485763::int)) \<and> (10485763::int) < 2 ^ 63 \<and> (1::int) \<le> 3 \<and>
   (3::int) \<le> 10485763 \<and>
   plannedRanges 10485763 3 =
     Some [\<lparr>r_index = 0, r_min = 0, r_max = 3495253\<rparr>,
           \<lparr>r_index = 1, r_min = 3495254, r_max = 6990507\<rparr>,
           \<lparr>r_index = 2, r_min = 6990508, r_max = 10485762\<rparr>]"
proof -
  have "plannedRanges 10485763 3 = Some (map (specRange 10485763 3) [0..3 - 1])"
    by (rule chunk_plan_partitions [THEN conjunct1]) simp_all
  then show ?thesis by (simp add: specRange_def upto_rec1)
qed

text \<open>
  Counterexample to C1 as stated (every \<open>P \<ge> 1\<close>): with more parts than bytes,
  \<open>L = 10485761\<close> and \<open>P = 10485762\<close>, the quotient is 0 and the first two ranges are
  both \<open>[0, -1]\<close>, so the bounds are not strictly increasing.
\<close>

theorem chunk_plan_not_increasing_counterexample:
  "plannedRanges 10485761 10485762 \<noteq> None \<and>
   \<not> strictlyIncreasing (the (plannedRanges 10485761 10485762))"
proof -
  have u0: "[0..10485762 - 1] = (0::int) # [0 + 1..10485762 - 1]"
    by (rule upto_rec1) simp
  have u1: "[0 + 1..10485762 - 1] = (0 + 1::int) # [0 + 1 + 1..10485762 - 1]"
    by (rule upto_rec1) simp
  have "plannedRanges 10485761 10485762 =
        Some (map (specRange 10485761 10485762) [0..10485762 - 1])"
    by (rule plannedRanges_large) simp_all
  then have eq: "plannedRanges 10485761 10485762 =
        Some (map (specRange 10485761 10485762) (0 # (0 + 1) # [0 + 1 + 1..10485762 - 1]))"
    unfolding u0 u1 .
  have gen: "plannedRanges 10485761 10485762 \<noteq> None \<and>
             \<not> strictlyIncreasing (the (plannedRanges 10485761 10485762))"
    if "plannedRanges 10485761 10485762 =
        Some (map (specRange 10485761 10485762) (0 # (0 + 1) # xs))" for xs
    using that by (simp add: specRange_def)
  show ?thesis by (rule gen [OF eq])
qed

text \<open>
  Claim C4. For every content length \<open>L\<close> with \<open>0 \<le> L \<le> 10 MiB\<close> the planning step
  requests exactly one range, with index 0 and bounds \<open>[0, L - 1]\<close>, whatever
  NumConcParts is.
\<close>

theorem small_file_single_range:
  assumes "0 \<le> L" and "L \<le> 10 * 1024 * 1024"
  shows "plannedRanges L P = Some [\<lparr>r_index = 0, r_min = 0, r_max = L - 1\<rparr>]"
  using assms by (intro plannedRanges_small) simp_all

text \<open>Witness for C4: a 5-byte file with NumConcParts = 7.\<close>

theorem small_file_single_range_witness:
  "(0::int) \<le> 5 \<and> (5::int) \<le> 10 * 1024 * 1024 \<and>
   plannedRanges 5 7 = Some [\<lparr>r_index = 0, r_min = 0, r_max = 4\<rparr>]"
  using small_file_single_range [of 5 7] by simp

section \<open>Runs, schedules and counting goroutines\<close>

lemma run_invariant:
  assumes "I s"
    and "\<And>t s s'. I s \<Longrightarrow> step e opts urls t s = Some s' \<Longrightarrow> I s'"
  shows "I (run e opts urls sched s)"
  using assms(1)
proof (induction sched arbitrary: s)
  case Nil
  then show ?case by simp
next
  case (Cons t ts)
  show ?case
  proof (cases "step e opts urls t s")
    case None
    then show ?thesis using Cons by simp
  next
    case (Some s')
    then have "I s'" using assms(2) Cons.prems by blast
    then show ?thesis using Cons.IH Some by simp
  qed
qed

lemma sum_list_map_update:
  fixes g :: "'a \<Rightarrow> nat"
  shows "j < length xs \<Longrightarrow> sum_list (map g (xs[j := x])) + g (xs ! j) = sum_list (map g xs) + g x"
proof (induction xs arbitrary: j)
  case Nil
  then show ?case by simp
next
  case (Cons a xs)
  then show ?case by (cases j) (auto simp: algebra_simps)
qed

lemma filter_length_update:
  "k < length fs \<Longrightarrow>
   length (filter P (fs[k := f])) + (if P (fs ! k) then 1 else 0) =
   length (filter P fs) + (if P f then 1 else 0)"
proof (induction fs arbitrary: k)
  case Nil
  then show ?case by simp
next
  case (Cons a fs)
  show ?case
  proof (cases k)
    case 0
    then show ?thesis by simp
  next
    case (Suc m)
    with Cons.prems have "m < length fs" by simp
    from Cons.IH [OF this] show ?thesis by (simp add: Suc)
  qed
qed

lemma countFetches_setFetch:
  assumes "j < length (jobs s)" "k < length (j_fetches (jobs s ! j))"
  shows "countFetches P (setFetch j k f s) + (if P (j_fetches (jobs s ! j) ! k) then 1 else 0) =
         countFetches P s + (if P f then 1 else 0)"
proof -
  let ?g = "\<lambda>jb. length (filter P (j_fetches jb))"
  let ?jb = "jobs s ! j"
  let ?jb' = "?jb\<lparr>j_fetches := (j_fetches ?jb)[k := f]\<rparr>"
  have a: "countFetches P (setFetch j k f s) + ?g ?jb = countFetches P s + ?g ?jb'"
    using sum_list_map_update [of j "jobs s" ?g ?jb'] assms
    by (simp add: countFetches_def setFetch_def)
  have b: "?g ?jb' + (if P (j_fetches ?jb ! k) then 1 else 0) = ?g ?jb + (if P f then 1 else 0)"
    using filter_length_update [OF assms(2), of P f] by simp
  from a b show ?thesis by linarith
qed

lemma countFetches_setJob:
  assumes "j < length (jobs s)"
  shows "countFetches P (setJob j jb s) + length (filter P (j_fetches (jobs s ! j))) =
         countFetches P s + length (filter P (j_fetches jb))"
  using sum_list_map_update [of j "jobs s" "\<lambda>jb. length (filter P (j_fetches jb))" jb] assms
  by (simp add: countFetches_def setJob_def)

lemma countFetches_cong: "jobs s' = jobs s \<Longrightarrow> countFetches P s' = countFetches P s"
  by (simp add: countFetches_def)


lemma setFetch_fields [simp]:
  "d_err (setFetch j k f s) = d_err s"
  "d_downloadPaths (setFetch j k f s) = d_downloadPaths s"
  "waitChan (setFetch j k f s) = waitChan s"
  "world (setFetch j k f s) = world s"
  "now (setFetch j k f s) = now s"
  "crashed (setFetch j k f s) = crashed s"
  "mainPc (setFetch j k f s) = mainPc s"
  "length (jobs (setFetch j k f s)) = length (jobs s)"
  by (simp_all add: setFetch_def)

lemma setJob_fields [simp]:
  "d_err (setJob j jb s) = d_err s"
  "d_downloadPaths (setJob j jb s) = d_downloadPaths s"
  "waitChan (setJob j jb s) = waitChan s"
  "world (setJob j jb s) = world s"
  "now (setJob j jb s) = now s"
  "crashed (setJob j jb s) = crashed s"
  "mainPc (setJob j jb s) = mainPc s"
  "length (jobs (setJob j jb s)) = length (jobs s)"
  by (simp_all add: setJob_def)


lemma countFetches_upd [simp]:
  "countFetches P (s\<lparr>d_err := a\<rparr>) = countFetches P s"
  "countFetches P (s\<lparr>d_downloadPaths := b\<rparr>) = countFetches P s"
  "countFetches P (s\<lparr>waitChan := c\<rparr>) = countFetches P s"
  "countFetches P (s\<lparr>world := d\<rparr>) = countFetches P s"
  "countFetches P (s\<lparr>now := n\<rparr>) = countFetches P s"
  "countFetches P (s\<lparr>crashed := f\<rparr>) = countFetches P s"
  "countFetches P (s\<lparr>mainPc := g\<rparr>) = countFetches P s"
  by (simp_all add: countFetches_def)


lemma countFetches_spawn:
  "countFetches P (s\<lparr>mainPc := pc, jobs := jobs s @ [newJob e opts u n L]\<rparr>) = countFetches P s"
  by (simp add: countFetches_def newJob_def)


section \<open>What steps never undo\<close>





lemma closeTemps_files [simp]: "files (closeTemps hs w) = files w"
  by (simp add: closeTemps_def)









section \<open>What Download returns\<close>








section \<open>Steps of other goroutines\<close>

lemma jobs_setJob_other: "j \<noteq> j' \<Longrightarrow> jobs (setJob j' jb s) ! j = jobs s ! j"
  by (simp add: setJob_def)

lemma jobs_setFetch_other: "j \<noteq> j' \<Longrightarrow> jobs (setFetch j' k f s) ! j = jobs s ! j"
  by (simp add: setFetch_def)

lemma jobs_setJob_same: "j < length (jobs s) \<Longrightarrow> jobs (setJob j jb s) ! j = jb"
  by (simp add: setJob_def)

lemma jobs_setFetch_same:
  "j < length (jobs s) \<Longrightarrow>
   jobs (setFetch j k f s) ! j = (jobs s ! j)\<lparr>j_fetches := (j_fetches (jobs s ! j))[k := f]\<rparr>"
  by (simp add: setFetch_def)

lemma other_job_step:
  assumes "downloadLargeFile e opts j' s = Some s'" "j \<noteq> j'"
  shows "jobs s' ! j = jobs s ! j"
  using assms
  by (auto simp: downloadLargeFile_def Let_def jobs_setJob_other
           split: if_splits jobPc.splits option.splits)

lemma other_fetch_step:
  assumes "downloadFileForRange e j' k s = Some s'" "j \<noteq> j'"
  shows "jobs s' ! j = jobs s ! j"
  using assms
  by (auto simp: downloadFileForRange_def Let_def jobs_setFetch_other
           split: if_splits fetchPc.splits getResult.splits)

lemma main_step_jobs:
  assumes "Download e opts urls s = Some s'" "j < length (jobs s)"
  shows "jobs s' ! j = jobs s ! j"
  using assms
  by (auto simp: Download_def Let_def nth_append
           split: mainPc.splits if_splits sum.splits option.splits)

lemma thread_keeps_main:
  assumes "downloadLargeFile e opts j s = Some s' \<or> downloadFileForRange e j k s = Some s'"
  shows "mainPc s' = mainPc s \<and> length (jobs s') = length (jobs s)"
  using assms
proof
  assume "downloadLargeFile e opts j s = Some s'"
  then show ?thesis
    by (auto simp: downloadLargeFile_def Let_def split: if_splits jobPc.splits option.splits)
next
  assume "downloadFileForRange e j k s = Some s'"
  then show ?thesis
    by (auto simp: downloadFileForRange_def Let_def
             split: if_splits fetchPc.splits getResult.splits)
qed

section \<open>The concurrency limiter\<close>

lemma permitInv_fetch:
  assumes "permitInv opts s" "downloadFileForRange e j k s = Some s'"
  shows "permitInv opts s'"
proof -
  from assms(2) have jk: "j < length (jobs s)" "k < length (j_fetches (jobs s ! j))"
    by (auto simp: downloadFileForRange_def split: if_splits)
  let ?f = "j_fetches (jobs s ! j) ! k"
  have cnt: "countFetches holdsPermit (setFetch j k f' s0) +
               (if holdsPermit ?f then 1 else 0) =
             countFetches holdsPermit s + (if holdsPermit f' then 1 else 0)"
    if "jobs s0 = jobs s" for f' s0
    using countFetches_setFetch [of j s0 k holdsPermit f'] jk that
    by (simp add: countFetches_def)
  have same: "countFetches holdsPermit (setFetch j k f' s0) = countFetches holdsPermit s"
    if "jobs s0 = jobs s" "holdsPermit f' = holdsPermit ?f" for f' s0
    using cnt [OF that(1), of f'] that(2) by simp
  have rel: "Suc (countFetches holdsPermit (setFetch j k f' s0)) = countFetches holdsPermit s"
    if "jobs s0 = jobs s" "holdsPermit ?f" "\<not> holdsPermit f'" for f' s0
    using cnt [OF that(1), of f'] that(2,3) by simp
  show ?thesis
  proof (cases "f_pc ?f")
    case FStart
    then show ?thesis
      using assms jk
      by (auto simp: downloadFileForRange_def permitInv_def holdsPermit_def Let_def same
               split: if_splits)
  next
    case (FInFlight hdr)
    then show ?thesis
      using assms jk
      by (auto simp: downloadFileForRange_def permitInv_def holdsPermit_def Let_def same
               split: if_splits getResult.splits)
  next
    case FRelease
    then show ?thesis
      using assms jk rel [of "s\<lparr>waitChan := waitChan s - 1\<rparr>" "?f\<lparr>f_pc := FDone\<rparr>"]
      by (auto simp: downloadFileForRange_def permitInv_def holdsPermit_def Let_def split: if_splits)
  next
    case FDone
    then show ?thesis using assms jk by (simp add: downloadFileForRange_def Let_def)
  next
    case FAborted
    then show ?thesis using assms jk by (simp add: downloadFileForRange_def Let_def)
  qed
qed

lemma permitInv_job:
  assumes "permitInv opts s" "downloadLargeFile e opts j s = Some s'"
  shows "permitInv opts s'"
proof -
  from assms(2) have j: "j < length (jobs s)"
    by (auto simp: downloadLargeFile_def split: if_splits)
  let ?jb = "jobs s ! j"
  have cnt: "countFetches holdsPermit (setJob j jb' s0) + length (filter holdsPermit (j_fetches ?jb)) =
             countFetches holdsPermit s + length (filter holdsPermit (j_fetches jb'))"
    if "jobs s0 = jobs s" for jb' s0
    using countFetches_setJob [of j s0 holdsPermit jb'] j that
    by (simp add: countFetches_def)
  have keep: "countFetches holdsPermit (setJob j jb' s0) = countFetches holdsPermit s"
    if "jobs s0 = jobs s" "j_fetches jb' = j_fetches ?jb" for jb' s0
    using cnt [OF that(1), of jb'] that(2) by simp
  have add: "countFetches holdsPermit (setJob j jb' s0) = Suc (countFetches holdsPermit s)"
    if "jobs s0 = jobs s" "j_fetches jb' = j_fetches ?jb @ [f]" "holdsPermit f" for jb' s0 f
    using cnt [OF that(1), of jb'] that(2,3) by simp
  show ?thesis
  proof (cases "j_pc ?jb")
    case JStat
    then show ?thesis
      using assms j
      by (auto simp: downloadLargeFile_def permitInv_def Let_def keep split: if_splits)
  next
    case JCreate
    then show ?thesis
      using assms j
      by (auto simp: downloadLargeFile_def permitInv_def Let_def keep
               split: if_splits option.splits)
  next
    case JLoop
    then show ?thesis
      using assms j
      by (auto simp: downloadLargeFile_def permitInv_def Let_def keep
               split: if_splits option.splits)
  next
    case (JSend h)
    then show ?thesis
      using assms j
      by (auto simp: downloadLargeFile_def permitInv_def Let_def add holdsPermit_def
               split: if_splits)
  next
    case JWait
    then show ?thesis
      using assms j
      by (auto simp: downloadLargeFile_def permitInv_def Let_def keep
               split: if_splits option.splits)
  next
    case JDone
    then show ?thesis using assms j by (simp add: downloadLargeFile_def Let_def)
  qed
qed

lemma permitInv_main:
  assumes "permitInv opts s" "Download e opts urls s = Some s'"
  shows "permitInv opts s'"
proof (cases "mainPc s")
  case MStart
  then show ?thesis using assms
    by (auto simp: Download_def permitInv_def split: if_splits)
next
  case (MLoop k)
  then show ?thesis using assms
    by (auto simp: Download_def permitInv_def Let_def countFetches_spawn
             split: if_splits sum.splits)
next
  case (MCheck k)
  then show ?thesis using assms
    by (auto simp: Download_def permitInv_def split: option.splits)
next
  case MWait
  then show ?thesis using assms
    by (auto simp: Download_def permitInv_def split: if_splits)
next
  case (MReturned ps err)
  then show ?thesis using assms by (simp add: Download_def)
qed

lemma permitInv_step:
  assumes "permitInv opts s" "step e opts urls t s = Some s'"
  shows "permitInv opts s'"
proof -
  from assms(2) obtain s1 where s1: "s' = s1\<lparr>now := Suc (now s1)\<rparr>" and
    mv: "(case t of TMain \<Rightarrow> Download e opts urls s
          | TJob j \<Rightarrow> downloadLargeFile e opts j s
          | TFetch j k \<Rightarrow> downloadFileForRange e j k s) = Some s1"
    by (auto simp: step_def split: if_splits)
  have "permitInv opts s1"
  proof (cases t)
    case TMain
    with mv have "Download e opts urls s = Some s1" by simp
    with assms(1) show ?thesis by (rule permitInv_main)
  next
    case (TJob j)
    with mv have "downloadLargeFile e opts j s = Some s1" by simp
    with assms(1) show ?thesis by (rule permitInv_job)
  next
    case (TFetch j k)
    with mv have "downloadFileForRange e j k s = Some s1" by simp
    with assms(1) show ?thesis by (rule permitInv_fetch)
  qed
  then show ?thesis by (simp add: s1 permitInv_def)
qed

lemma inFlight_le_holders: "countFetches inFlight s \<le> countFetches holdsPermit s"
proof -
  have len: "length (filter inFlight fs) \<le> length (filter holdsPermit fs)" for fs
  proof (induction fs)
    case Nil
    then show ?case by simp
  next
    case (Cons f fs)
    then show ?case by (auto simp: inFlight_def holdsPermit_def split: fetchPc.splits)
  qed
  show ?thesis
    unfolding countFetches_def by (rule sum_list_mono) (rule len)
qed

text \<open>
  Claim C5. Whatever the batch, the answers of the network and the file system, and the
  interleaving of the goroutines: with a capacity \<open>MaxLimitConcurrency \<ge> 0\<close>, the number
  of fetches in flight (client.Do called, permit not yet released) never exceeds
  MaxLimitConcurrency. The permit is sent into the shared channel before the fetch is
  spawned, so the permits in the channel are exactly the fetches spawned and not yet
  released, and the channel never holds more than its capacity.
\<close>

theorem inflight_never_exceeds_limit:
  assumes "0 \<le> MaxLimitConcurrency opts"
  shows "int (countFetches inFlight (run e opts fileUrls sched (initState err paths w)))
           \<le> MaxLimitConcurrency opts \<and>
         countFetches holdsPermit (run e opts fileUrls sched (initState err paths w)) =
           waitChan (run e opts fileUrls sched (initState err paths w)) \<and>
         int (waitChan (run e opts fileUrls sched (initState err paths w)))
           \<le> MaxLimitConcurrency opts"
proof -
  let ?s = "run e opts fileUrls sched (initState err paths w)"
  have "permitInv opts (initState err paths w)"
    using assms by (simp add: permitInv_def initState_def countFetches_def)
  then have "permitInv opts ?s"
    by (rule run_invariant) (rule permitInv_step)
  then show ?thesis
    using inFlight_le_holders [of ?s] by (simp add: permitInv_def)
qed

text \<open>
  Witness for C5: under a limit of one permit the first fetch of a two-part file is in
  flight, the channel is full and the job is held at the send for the second part.
\<close>

theorem inflight_never_exceeds_limit_witness:
  "(0::int) \<le> 1 \<and> countFetches inFlight limiterRun = 1 \<and> waitChan limiterRun = 1 \<and>
   j_pc (jobs limiterRun ! 0) = JSend 1 \<and>
   int (countFetches inFlight limiterRun) \<le> 1"
proof -
  have a: "countFetches inFlight limiterRun = 1" by code_simp
  have b: "waitChan limiterRun = 1" by code_simp
  have c: "j_pc (jobs limiterRun ! 0) = JSend 1" by code_simp
  have "int (countFetches inFlight limiterRun)
          \<le> MaxLimitConcurrency \<lparr>DownloadDir = ''dir'', NumConcParts = 2, MaxLimitConcurrency = 1\<rparr>"
    unfolding limiterRun_def
    by (rule inflight_never_exceeds_limit [THEN conjunct1]) simp
  then show ?thesis using a b c by simp
qed

section \<open>Combining the chunks\<close>

lemma writeAt_end: "writeAt old (length old) bs = old @ bs"
  by (simp add: writeAt_def)

lemma combineLoop_appends:
  assumes len: "length fileChunks = length hs" "length fs = length hs"
    and look: "\<And>k. k < length hs \<Longrightarrow> map_of fileChunks (int k) = Some (hs ! k)"
    and nofault: "\<And>k. k < length hs \<Longrightarrow> fault (int k) = None"
  shows "i \<le> length hs \<Longrightarrow> off = length (fileData w path) \<Longrightarrow>
         (\<And>k. k < length hs \<Longrightarrow> \<exists>f. temps w (hs ! k) = Some f \<and> t_data f = t_data (fs ! k)) \<Longrightarrow>
         \<exists>w'. combineLoop fault fileChunks (int i) w path off =
                (None, w', off + length (concat (map t_data (drop i fs)))) \<and>
              fileData w' path = fileData w path @ concat (map t_data (drop i fs)) \<and>
              (\<forall>p. p \<noteq> path \<longrightarrow> files w' p = files w p) \<and>
              (\<forall>h g. temps w h = Some g \<longrightarrow>
                 (\<exists>g'. temps w' h = Some g' \<and> t_data g' = t_data g \<and>
                       (t_off g' = t_off g \<or> t_off g' = length (t_data g)))) \<and>
              (\<forall>k. i \<le> k \<and> k < length hs \<longrightarrow>
                 (\<exists>f. temps w' (hs ! k) = Some f \<and> t_data f = t_data (fs ! k) \<and>
                      t_off f = length (t_data f)))"
proof (induction "length hs - i" arbitrary: i w off)
  case 0
  then have i: "i = length hs" by simp
  have "combineLoop fault fileChunks (int i) w path off = (None, w, off)"
    by (subst combineLoop.simps) (simp add: i len)
  then show ?case using i len by auto
next
  case (Suc n)
  then have i: "i < length hs" by simp
  from Suc.prems(3) [OF i] obtain f where f: "temps w (hs ! i) = Some f" "t_data f = t_data (fs ! i)"
    by blast
  let ?w' = "w\<lparr>temps := (temps w)(hs ! i \<mapsto> f\<lparr>t_off := length (t_data f)\<rparr>),
               files := (files w)(path \<mapsto> writeAt (fileData w path) off (t_data f))\<rparr>"
  let ?off' = "off + length (t_data f)"
  have unf: "combineLoop fault fileChunks (int i) w path off =
             combineLoop fault fileChunks (int (Suc i)) ?w' path ?off'"
    using i len look [OF i] nofault [OF i] f
    by (subst combineLoop.simps) (simp add: Let_def add.commute)
  have fd: "fileData ?w' path = fileData w path @ t_data f"
    using Suc.prems(2) by (simp add: fileData_def writeAt_end)
  have n: "n = length hs - Suc i" using Suc.hyps(2) by simp
  have si: "Suc i \<le> length hs" using i by simp
  have off': "?off' = length (fileData ?w' path)" using fd Suc.prems(2) by simp
  have open': "\<exists>g. temps ?w' (hs ! k) = Some g \<and> t_data g = t_data (fs ! k)"
    if "k < length hs" for k
    using Suc.prems(3) [OF that] f by auto
  from Suc.hyps(1) [OF n si off' open']
  obtain w'' where w'':
    "combineLoop fault fileChunks (int (Suc i)) ?w' path ?off' =
       (None, w'', ?off' + length (concat (map t_data (drop (Suc i) fs))))"
    "fileData w'' path = fileData ?w' path @ concat (map t_data (drop (Suc i) fs))"
    "\<And>p. p \<noteq> path \<Longrightarrow> files w'' p = files ?w' p"
    "\<And>h g. temps ?w' h = Some g \<Longrightarrow>
       \<exists>g'. temps w'' h = Some g' \<and> t_data g' = t_data g \<and>
            (t_off g' = t_off g \<or> t_off g' = length (t_data g))"
    "\<And>k. Suc i \<le> k \<Longrightarrow> k < length hs \<Longrightarrow>
       \<exists>g. temps w'' (hs ! k) = Some g \<and> t_data g = t_data (fs ! k) \<and> t_off g = length (t_data g)"
    by blast
  have dr: "drop i fs = fs ! i # drop (Suc i) fs"
    using i len by (simp add: Cons_nth_drop_Suc)
  have c1: "combineLoop fault fileChunks (int i) w path off =
            (None, w'', off + length (concat (map t_data (drop i fs))))"
    using unf w''(1) dr f(2) by simp
  have c2: "fileData w'' path = fileData w path @ concat (map t_data (drop i fs))"
    using w''(2) fd dr f(2) by simp
  have c3: "files w'' p = files w p" if "p \<noteq> path" for p
    using w''(3) [OF that] that by simp
  have c4: "\<exists>g'. temps w'' h = Some g' \<and> t_data g' = t_data g \<and>
                 (t_off g' = t_off g \<or> t_off g' = length (t_data g))"
    if "temps w h = Some g" for h g
  proof (cases "h = hs ! i")
    case True
    then have "temps ?w' h = Some (f\<lparr>t_off := length (t_data f)\<rparr>)" by simp
    from w''(4) [OF this] True that f show ?thesis by auto
  next
    case False
    then have "temps ?w' h = Some g" using that by simp
    from w''(4) [OF this] show ?thesis .
  qed
  have c5: "\<exists>g. temps w'' (hs ! k) = Some g \<and> t_data g = t_data (fs ! k) \<and>
                t_off g = length (t_data g)"
    if "i \<le> k" "k < length hs" for k
  proof (cases "k = i")
    case True
    have "temps ?w' (hs ! i) = Some (f\<lparr>t_off := length (t_data f)\<rparr>)" by simp
    from w''(4) [OF this] True f show ?thesis by auto
  next
    case False
    with that have "Suc i \<le> k" by simp
    from w''(5) [OF this that(2)] show ?thesis .
  qed
  show ?case using c1 c2 c3 c4 c5 by blast
qed


text \<open>
  Claim C7. Let the map \<open>fileChunks\<close> hold, under the keys \<open>0 .. N - 1\<close>, open temporary
  files with contents \<open>fs\<close> and cursors anywhere, and let no copy fail. Then combineChunks
  returns no error and has appended to the output, whose cursor stood at its end, the
  full contents of the chunks in ascending index order: the output is its old contents
  followed by the concatenation of the chunks (for the file createOutputFile just
  created, the concatenation itself). Every chunk was rewound and read to its end, and
  no other file changed. The order in which the fetches wrote the chunks plays no part.
\<close>

theorem combineChunks_concatenates:
  assumes "length fileChunks = length fs" and "length hs = length fs"
    and "\<forall>k < length fs. map_of fileChunks (int k) = Some (hs ! k)"
    and "\<forall>k < length fs. temps w (hs ! k) = Some (fs ! k)"
    and "\<forall>k < length fs. fault (int k) = None"
    and "off = length (fileData w path)"
  shows "\<exists>w'. combineChunks fault fileChunks w path off =
                (None, w', off + length (concat (map t_data fs))) \<and>
              fileData w' path = fileData w path @ concat (map t_data fs) \<and>
              (\<forall>p. p \<noteq> path \<longrightarrow> files w' p = files w p) \<and>
              (\<forall>k < length fs. \<exists>f. temps w' (hs ! k) = Some f \<and> t_data f = t_data (fs ! k) \<and>
                                     t_off f = length (t_data f))"
proof -
  have "\<exists>w'. combineLoop fault fileChunks (int 0) w path off =
                (None, w', off + length (concat (map t_data (drop 0 fs)))) \<and>
              fileData w' path = fileData w path @ concat (map t_data (drop 0 fs)) \<and>
              (\<forall>p. p \<noteq> path \<longrightarrow> files w' p = files w p) \<and>
              (\<forall>h g. temps w h = Some g \<longrightarrow>
                 (\<exists>g'. temps w' h = Some g' \<and> t_data g' = t_data g \<and>
                       (t_off g' = t_off g \<or> t_off g' = length (t_data g)))) \<and>
              (\<forall>k. 0 \<le> k \<and> k < length hs \<longrightarrow>
                 (\<exists>f. temps w' (hs ! k) = Some f \<and> t_data f = t_data (fs ! k) \<and>
                      t_off f = length (t_data f)))"
    using assms by (intro combineLoop_appends) auto
  then show ?thesis using assms(2) by (auto simp: combineChunks_def)
qed

text \<open>
  Witness for C7: a map stored in the order 1, 0, with chunk 0 holding \<open>ab\<close> and chunk 1
  holding \<open>cd\<close>, both cursors at the end; the output becomes \<open>abcd\<close>.
\<close>

theorem combineChunks_concatenates_witness:
  "fst (combineChunks (\<lambda>i. None) [(1, 8), (0, 7)] combineWorld ''dir/f'' 0) = None \<and>
   fileData (fst (snd (combineChunks (\<lambda>i. None) [(1, 8), (0, 7)] combineWorld ''dir/f'' 0))) ''dir/f''
     = ''abcd''"
proof -
  have "\<exists>w'. combineChunks (\<lambda>i. None) [(1, 8), (0, 7)] combineWorld ''dir/f'' 0 =
                (None, w', 0 + length (concat (map t_data
                   [\<lparr>t_data = ''ab'', t_off = 2\<rparr>, \<lparr>t_data = ''cd'', t_off = 2\<rparr>]))) \<and>
              fileData w' ''dir/f'' = fileData combineWorld ''dir/f'' @ concat (map t_data
                   [\<lparr>t_data = ''ab'', t_off = 2\<rparr>, \<lparr>t_data = ''cd'', t_off = 2\<rparr>]) \<and>
              (\<forall>p. p \<noteq> ''dir/f'' \<longrightarrow> files w' p = files combineWorld p) \<and>
              (\<forall>k < length [\<lparr>t_data = ''ab'', t_off = 2\<rparr>, \<lparr>t_data = ''cd'', t_off = 2\<rparr>].
                 \<exists>f. temps w' ([7, 8] ! k) = Some f \<and>
                     t_data f = t_data ([\<lparr>t_data = ''ab'', t_off = 2\<rparr>, \<lparr>t_data = ''cd'', t_off = 2\<rparr>] ! k) \<and>
                     t_off f = length (t_data f))"
    by (rule combineChunks_concatenates)
       (simp_all add: combineWorld_def fileData_def All_less_Suc)
  then show ?thesis by (auto simp: combineWorld_def fileData_def)
qed

section \<open>Errors of fetches and what Download returns\<close>

text \<open>
  Claim C2, where the code differs: at the failing input (the GET of the only range
  answers 404) the fetch stores its error in \<open>d_err\<close>, every goroutine returns, and
  Download returns from wg.Wait with the error \<open>None\<close>; the path of the job whose
  fetch failed is in the returned list.
\<close>

theorem range_failure_returns_nil_error:
  "mainPc notFoundRun = MReturned [''dir/f''] None \<and>
   d_err notFoundRun = Some (ErrNot20X 404) \<and>
   list_all jobReturned (jobs notFoundRun) \<and>
   list_all fetchReturned (j_fetches (jobs notFoundRun ! 0))"
  by code_simp

text \<open>
  Claim C3, where the code differs: when client.Do fails, and when http.NewRequest
  fails, the fetch returns before the release is deferred. Every goroutine has
  returned and the channel still holds the permit.
\<close>

theorem failed_fetch_keeps_permit:
  "map f_pc (j_fetches (jobs transportFailRun ! 0)) = [FAborted] \<and>
   waitChan transportFailRun = 1 \<and>
   list_all jobReturned (jobs transportFailRun) \<and>
   mainPc transportFailRun = MReturned [''dir/f''] None \<and>
   map f_pc (j_fetches (jobs newRequestFailRun ! 0)) = [FAborted] \<and>
   waitChan newRequestFailRun = 1 \<and>
   list_all jobReturned (jobs newRequestFailRun) \<and>
   mainPc newRequestFailRun = MReturned [''dir/f''] None"
  by code_simp


section \<open>The Downloader's state across calls\<close>






end
